theory Spec2Isabelle
  imports Main "HOL-Library.Multiset"
begin

section \<open>Row model (src/types/mcq.ts)\<close>

text \<open>
  \<^verbatim>\<open>ParsedRowType\<close> is the union of the five string literals
  \<^verbatim>\<open>'section' | 'question' | 'answer' | 'empty' | 'error'\<close>; the constructors are
  capitalised because \<^verbatim>\<open>section\<close> is a keyword here.
\<close>

datatype ParsedRowType = Section | Question | Answer | Empty | Error

text \<open>
  \<^verbatim>\<open>ParsedRow\<close>. The fields \<^verbatim>\<open>id\<close>, \<^verbatim>\<open>type\<close> and \<^verbatim>\<open>text\<close> carry the prefix
  \<open>row_\<close> (the plain names are taken). Numbers are integers; the optional fields
  \<^verbatim>\<open>isKey?\<close> and \<^verbatim>\<open>originalNumber?\<close> are options, \<open>None\<close> standing for
  \<^verbatim>\<open>undefined\<close>. Strings are lists of 8-bit characters: a code unit above 255 is outside
  the model.
\<close>

record ParsedRow =
  row_id :: int
  row_type :: ParsedRowType
  label :: string
  row_text :: string
  isKey :: "bool option"
  locked :: bool
  originalNumber :: "int option"

text \<open>\<^verbatim>\<open>createRow\<close> (parser.ts): every new row is unkeyed and unlocked.\<close>

definition createRow :: "int \<Rightarrow> ParsedRowType \<Rightarrow> string \<Rightarrow> string \<Rightarrow> int option \<Rightarrow> ParsedRow" where
  "createRow i t l txt orig =
     \<lparr>row_id = i, row_type = t, label = l, row_text = txt, isKey = Some False,
      locked = False, originalNumber = orig\<rparr>"



section \<open>Validator (validateParsedMcq)\<close>

definition digits :: string where
  "digits = ''0123456789''"

text \<open>\<^verbatim>\<open>isNum\<close>: the regular expression \<^verbatim>\<open>/^\d+$/\<close>, one or more digits and nothing else.\<close>

definition isNum :: "string \<Rightarrow> bool" where
  "isNum l = (l \<noteq> [] \<and> list_all (\<lambda>c. c \<in> set digits) l)"

record ValidationResult =
  isValid :: bool
  firstErrorRowId :: "int option"
  validatedRows :: "ParsedRow list"

text \<open>
  The labels of the neighbours, \<^verbatim>\<open>''\<close> where there is none.
  \<^verbatim>\<open>index < validatedRows.length - 1\<close> is written \<open>index + 1 < length rows\<close>
  (the subtraction is on JavaScript numbers, not on naturals).
\<close>

definition previousLabel :: "ParsedRow list \<Rightarrow> nat \<Rightarrow> string" where
  "previousLabel rows index = (if index > 0 then label (rows ! (index - 1)) else [])"

definition nextLabel :: "ParsedRow list \<Rightarrow> nat \<Rightarrow> string" where
  "nextLabel rows index = (if index + 1 < length rows then label (rows ! (index + 1)) else [])"

definition nextNextLabel :: "ParsedRow list \<Rightarrow> nat \<Rightarrow> string" where
  "nextNextLabel rows index = (if index + 2 < length rows then label (rows ! (index + 2)) else [])"

text \<open>
  The eight \<^verbatim>\<open>if (label === ...)\<close> statements of the loop body, each of which can only set
  \<^verbatim>\<open>hasError\<close>: the flag is their disjunction.
\<close>

definition hasError :: "ParsedRow list \<Rightarrow> nat \<Rightarrow> bool" where
  "hasError rows index =
    (let l = label (rows ! index);
         p = previousLabel rows index;
         n = nextLabel rows index;
         nn = nextNextLabel rows index
     in (l = ''S'' \<and> (p \<noteq> [] \<or> n \<noteq> [] \<or> \<not> isNum nn))
      \<or> (l = [] \<and> (p = ''A'' \<or> isNum p \<or> n \<in> set [''A'', ''B'', ''C'', ''D'', ''E'']))
      \<or> (isNum l \<and> (p \<noteq> [] \<or> n \<noteq> ''A''))
      \<or> (l = ''A'' \<and> (\<not> isNum p \<or> n \<noteq> ''B''))
      \<or> (l = ''B'' \<and> (p \<noteq> ''A'' \<or> (n \<noteq> ''C'' \<and> n \<noteq> [])))
      \<or> (l = ''C'' \<and> (p \<noteq> ''B'' \<or> (n \<noteq> ''D'' \<and> n \<noteq> [])))
      \<or> (l = ''D'' \<and> (p \<noteq> ''C'' \<or> (n \<noteq> ''E'' \<and> n \<noteq> [])))
      \<or> (l = ''E'' \<and> (p \<noteq> ''D'' \<or> n \<noteq> [])))"

text \<open>The "reset error state" chain of conditionals on \<^verbatim>\<open>row.type\<close>.\<close>

fun resetType :: "ParsedRowType \<Rightarrow> ParsedRowType" where
  "resetType Section = Section"
| "resetType Question = Question"
| "resetType Answer = Answer"
| "resetType _ = Empty"

text \<open>
  One run of the \<^verbatim>\<open>forEach\<close> body on the copy of row \<open>index\<close>. The body reads only
  the labels of the neighbouring copies, and no label is ever written, so the rows can be
  computed independently of each other.
\<close>

definition validateRow :: "ParsedRow list \<Rightarrow> nat \<Rightarrow> ParsedRow" where
  "validateRow rows index =
    (let row = rows ! index;
         wasError = (row_type row = Error);
         row1 = (if \<not> wasError then row\<lparr>row_type := resetType (row_type row)\<rparr> else row)
     in if wasError \<or> hasError rows index then row1\<lparr>row_type := Error\<rparr> else row1)"

text \<open>
  \<^verbatim>\<open>if (!firstErrorRowId) firstErrorRowId = row.id\<close>, run for every row marked as an
  error: \<^verbatim>\<open>!firstErrorRowId\<close> holds for \<^verbatim>\<open>undefined\<close> and for \<^verbatim>\<open>0\<close>.
\<close>

definition noteError :: "int option \<Rightarrow> ParsedRow \<Rightarrow> int option" where
  "noteError fe row =
     (if row_type row = Error \<and> (fe = None \<or> fe = Some 0) then Some (row_id row) else fe)"

definition validateParsedMcq :: "ParsedRow list \<Rightarrow> ValidationResult" where
  "validateParsedMcq rows =
    (if length rows = 0 then \<lparr>isValid = True, firstErrorRowId = None, validatedRows = []\<rparr>
     else
       let vrows = map (validateRow rows) [0..<length rows];
           fe = foldl noteError None vrows
       in \<lparr>isValid = (fe = None), firstErrorRowId = fe, validatedRows = vrows\<rparr>)"


section \<open>Answer-key generator (generator.ts)\<close>










subsection \<open>The lines described run by run\<close>







section \<open>Shuffle engine (shuffle.ts)\<close>

subsection \<open>The random source\<close>

text \<open>
  \<^verbatim>\<open>Math.random()\<close> is an input of the model: \<open>rnd k\<close> is what the \<open>k\<close>-th call
  of a run draws, and every function that draws returns the number of calls made so far.
  \<^verbatim>\<open>Math.floor(Math.random() * (i + 1))\<close> is an index between \<open>0\<close> and \<open>i\<close>; it is
  modelled as \<open>rnd k mod (i + 1)\<close>, so that every such index can be drawn and no other.
\<close>

type_synonym rng = "nat \<Rightarrow> nat"

subsection \<open>shuffleArray\<close>

text \<open>\<^verbatim>\<open>array.splice(idx, 1)\<close>: nothing is removed when \<open>idx\<close> is past the end.\<close>

definition spliceRemove :: "nat \<Rightarrow> 'a list \<Rightarrow> 'a list" where
  "spliceRemove idx array = take idx array @ drop (Suc idx) array"

text \<open>\<^verbatim>\<open>array.splice(idx, 0, element)\<close>: past the end, the element is appended.\<close>

definition spliceInsert :: "nat \<Rightarrow> 'a \<Rightarrow> 'a list \<Rightarrow> 'a list" where
  "spliceInsert idx element array = take idx array @ element # drop idx array"

text \<open>
  "Extract locked elements": \<^verbatim>\<open>array[idx]\<close> is \<^verbatim>\<open>undefined\<close> exactly when \<open>idx\<close> is
  out of range (the arrays hold rows or arrays of rows, never \<^verbatim>\<open>undefined\<close>).
\<close>

definition extractLocked :: "'a list \<Rightarrow> nat list \<Rightarrow> 'a list" where
  "extractLocked array sortedIdx =
     map (\<lambda>idx. array ! idx) (filter (\<lambda>idx. idx < length array) sortedIdx)"

text \<open>
  "Remove locked elements from array (reverse order to preserve indexes)": the loop runs
  from the last index of \<open>sorted\<close> down to the first, which is what \<open>foldr\<close> does.
\<close>

definition removeLocked :: "nat list \<Rightarrow> 'a list \<Rightarrow> 'a list" where
  "removeLocked sortedIdx array = foldr spliceRemove sortedIdx array"

text \<open>
  The Fisher-Yates loop \<^verbatim>\<open>for (let i = array.length - 1; i > 0; i--)\<close>, started at \<open>i\<close>;
  \<open>k\<close> counts the draws. The two elements are swapped when both are defined.
\<close>

fun fisherYates :: "rng \<Rightarrow> nat \<Rightarrow> nat \<Rightarrow> 'a list \<Rightarrow> 'a list \<times> nat" where
  "fisherYates rnd k 0 array = (array, k)"
| "fisherYates rnd k (Suc i) array =
    (let j = rnd k mod (Suc i + 1)
     in fisherYates rnd (Suc k) i
          (if Suc i < length array \<and> j < length array
           then array[Suc i := array ! j, j := array ! Suc i]
           else array))"

text \<open>
  "Restore locked elements to their original positions": \<^verbatim>\<open>sorted.forEach\<close> pairs the
  \<open>i\<close>-th index with \<^verbatim>\<open>lockedElements[i]\<close> and does nothing once the elements run out,
  which is \<open>zip\<close>.
\<close>

definition restoreLocked :: "(nat \<times> 'a) list \<Rightarrow> 'a list \<Rightarrow> 'a list" where
  "restoreLocked pairs array = foldl (\<lambda>a (originalIndex, element). spliceInsert originalIndex element a) array pairs"

text \<open>
  \<^verbatim>\<open>shuffleArray\<close> shuffles in place; the model returns the array after the call and the
  number of draws made. \<open>sortedIdx\<close> is the source's \<^verbatim>\<open>sorted\<close>.
\<close>

definition shuffleArray :: "rng \<Rightarrow> nat \<Rightarrow> 'a list \<Rightarrow> nat list \<Rightarrow> 'a list \<times> nat" where
  "shuffleArray rnd k array lockedIndexes =
    (let sortedIdx = sort lockedIndexes;
         lockedElements = extractLocked array sortedIdx;
         array1 = removeLocked sortedIdx array;
         (array2, k') = fisherYates rnd k (length array1 - 1) array1
     in (restoreLocked (zip sortedIdx lockedElements) array2, k'))"

subsection \<open>Segmentation\<close>

text \<open>\<^verbatim>\<open>xs[0]?.p\<close>: false on an empty array.\<close>

definition firstHas :: "(ParsedRow \<Rightarrow> bool) \<Rightarrow> ParsedRow list \<Rightarrow> bool" where
  "firstHas p xs = (case xs of [] \<Rightarrow> False | row # _ \<Rightarrow> p row)"

definition isSection :: "ParsedRow \<Rightarrow> bool" where
  "isSection row = (row_type row = Section)"

text \<open>\<^verbatim>\<open>blocks[blocks.length - 1].push(row)\<close>, on a non-empty array of arrays.\<close>

definition pushRow :: "ParsedRow list list \<Rightarrow> ParsedRow \<Rightarrow> ParsedRow list list" where
  "pushRow blocks row = butlast blocks @ [last blocks @ [row]]"

definition sectionStep :: "ParsedRow list list \<Rightarrow> ParsedRow \<Rightarrow> ParsedRow list list" where
  "sectionStep sections row =
    (if row_type row = Section then sections @ [[row]]
     else pushRow (if length sections = 0 then sections @ [[]] else sections) row)"

definition splitIntoSections :: "ParsedRow list \<Rightarrow> ParsedRow list list" where
  "splitIntoSections rows = foldl sectionStep [] rows"

text \<open>The two \<^verbatim>\<open>forEach\<close> bodies of \<^verbatim>\<open>splitSectionIntoQuestions\<close>: with and without header.\<close>

definition questionStepHeader :: "ParsedRow list list \<Rightarrow> ParsedRow \<Rightarrow> ParsedRow list list" where
  "questionStepHeader questions row =
    (if row_type row = Question then questions @ [[row]]
     else if length questions > 1 then pushRow questions row
     else questions)"

definition questionStep :: "ParsedRow list list \<Rightarrow> ParsedRow \<Rightarrow> ParsedRow list list" where
  "questionStep questions row =
    (if row_type row = Question then questions @ [[row]]
     else if length questions > 0 then pushRow questions row
     else questions)"

definition splitSectionIntoQuestions :: "ParsedRow list \<Rightarrow> ParsedRow list list" where
  "splitSectionIntoQuestions sec =
    (if length sec > 0 \<and> firstHas isSection sec
     then foldl questionStepHeader [take 2 sec] (drop 2 sec)
     else foldl questionStep [] sec)"

definition splitIntoSectionsAndQuestions :: "ParsedRow list \<Rightarrow> ParsedRow list list list" where
  "splitIntoSectionsAndQuestions rows = map splitSectionIntoQuestions (splitIntoSections rows)"

subsection \<open>reletterAnswers\<close>

definition letters :: "string list" where
  "letters = [''A'', ''B'', ''C'', ''D'', ''E'']"



subsection \<open>The three shuffles\<close>

text \<open>A loop over an array whose body draws random numbers: the draw counter is threaded.\<close>

fun forEachRng :: "(nat \<Rightarrow> 'a \<Rightarrow> 'b \<times> nat) \<Rightarrow> nat \<Rightarrow> 'a list \<Rightarrow> 'b list \<times> nat" where
  "forEachRng f k [] = ([], k)"
| "forEachRng f k (x # xs) =
    (let (y, k1) = f k x; (ys, k2) = forEachRng f k1 xs in (y # ys, k2))"

definition lockedSectionIndexes :: "ParsedRow list list \<Rightarrow> nat list" where
  "lockedSectionIndexes sections =
     filter (\<lambda>index. firstHas locked (sections ! index)) [0..<length sections]"

text \<open>The array \<^verbatim>\<open>sections\<close> of \<^verbatim>\<open>shuffleSections\<close> after \<^verbatim>\<open>shuffleArray\<close> has run on it.\<close>

definition shuffledSections :: "rng \<Rightarrow> ParsedRow list \<Rightarrow> ParsedRow list list" where
  "shuffledSections rnd rows =
     fst (shuffleArray rnd 0 (splitIntoSections rows) (lockedSectionIndexes (splitIntoSections rows)))"

definition shuffleSections :: "rng \<Rightarrow> ParsedRow list \<Rightarrow> ParsedRow list" where
  "shuffleSections rnd rows = concat (shuffledSections rnd rows)"

text \<open>
  \<^verbatim>\<open>shuffleQuestions\<close>: index 0 is pushed when the first block is a section header,
  any index when the block's first row is locked; no index is pushed twice.
\<close>

definition lockedBlockIndexes :: "ParsedRow list list \<Rightarrow> nat list" where
  "lockedBlockIndexes sec =
     filter (\<lambda>index. (index = 0 \<and> firstHas isSection (sec ! index)) \<or> firstHas locked (sec ! index))
       [0..<length sec]"

definition shuffleBlocksOfSection :: "rng \<Rightarrow> nat \<Rightarrow> ParsedRow list list \<Rightarrow> ParsedRow list list \<times> nat" where
  "shuffleBlocksOfSection rnd k sec = shuffleArray rnd k sec (lockedBlockIndexes sec)"

text \<open>The nested array \<^verbatim>\<open>sectionsByQuestion\<close> of \<^verbatim>\<open>shuffleQuestions\<close> after the loop.\<close>

definition shuffledQuestionBlocks :: "rng \<Rightarrow> ParsedRow list \<Rightarrow> ParsedRow list list list" where
  "shuffledQuestionBlocks rnd rows =
     fst (forEachRng (shuffleBlocksOfSection rnd) 0 (splitIntoSectionsAndQuestions rows))"

definition shuffleQuestions :: "rng \<Rightarrow> ParsedRow list \<Rightarrow> ParsedRow list" where
  "shuffleQuestions rnd rows = concat (concat (shuffledQuestionBlocks rnd rows))"

text \<open>
  \<^verbatim>\<open>shuffleAnswers\<close>: \<^verbatim>\<open>[questionRow, emptyRow]\<close> followed by the locked rows in between.
  A block is never empty, so \<^verbatim>\<open>questionBlock.length - 1\<close> is not negative.
\<close>

definition lockedAnswerIndexes :: "ParsedRow list \<Rightarrow> nat list" where
  "lockedAnswerIndexes questionBlock =
     [0, length questionBlock - 1] @
     filter (\<lambda>index. index \<noteq> 0 \<and> index \<noteq> length questionBlock - 1 \<and> locked (questionBlock ! index))
       [0..<length questionBlock]"

definition shuffleAnswersOfBlock :: "rng \<Rightarrow> nat \<Rightarrow> ParsedRow list \<Rightarrow> ParsedRow list \<times> nat" where
  "shuffleAnswersOfBlock rnd k questionBlock =
    (if firstHas isSection questionBlock then (questionBlock, k)
     else shuffleArray rnd k questionBlock (lockedAnswerIndexes questionBlock))"

text \<open>The nested array \<^verbatim>\<open>sectionsByQuestion\<close> of \<^verbatim>\<open>shuffleAnswers\<close> after the loop.\<close>

definition shuffledAnswerBlocks :: "rng \<Rightarrow> ParsedRow list \<Rightarrow> ParsedRow list list list" where
  "shuffledAnswerBlocks rnd rows =
     fst (forEachRng (forEachRng (shuffleAnswersOfBlock rnd)) 0 (splitIntoSectionsAndQuestions rows))"



section \<open>Regular expressions, as JavaScript matches them\<close>

text \<open>
  The parser is written with regular expressions. They are embedded as syntax trees and
  run by a backtracking matcher that follows the ECMAScript semantics of the constructs
  the source uses: greedy quantifiers, alternatives tried in order, capture groups,
  negative lookahead, and \<^verbatim>\<open>^\<close> with and without the \<^verbatim>\<open>m\<close> flag.
  A character class lists its members.
\<close>

datatype regex =
    Eps
  | One string
  | NoneOf string
  | Bol
  | BolM
  | Seq regex regex
  | Alt regex regex
  | Rep nat "nat option" regex
  | Grp nat regex
  | NotAhead regex

text \<open>
  \<open>One cs\<close> is the class \<^verbatim>\<open>[cs]\<close> and \<open>NoneOf cs\<close> the class \<^verbatim>\<open>[^cs]\<close>; \<open>Bol\<close> is
  \<^verbatim>\<open>^\<close>, \<open>BolM\<close> is \<^verbatim>\<open>^\<close> under the \<^verbatim>\<open>m\<close> flag; \<open>Rep lo hi r\<close> is the greedy
  \<^verbatim>\<open>r{lo,hi}\<close> (\<open>None\<close>: no upper bound); \<open>Grp n r\<close> is the \<open>n\<close>-th capture group
  \<^verbatim>\<open>(r)\<close>; \<open>NotAhead r\<close> is \<^verbatim>\<open>(?!r)\<close>.
\<close>

definition many :: "regex \<Rightarrow> regex" where
  "many r = Rep 0 None r"

definition many1 :: "regex \<Rightarrow> regex" where
  "many1 r = Rep 1 None r"

definition optional :: "regex \<Rightarrow> regex" where
  "optional r = Rep 0 (Some 1) r"

definition seqs :: "regex list \<Rightarrow> regex" where
  "seqs rs = foldr Seq rs Eps"

text \<open>
  \<^verbatim>\<open>\s\<close> and the characters \<^verbatim>\<open>trim()\<close> strips, among the 8-bit characters: TAB, LF, VT,
  FF, CR, space and NBSP. The line terminators among them are LF and CR; \<^verbatim>\<open>.\<close> is any
  other character.
\<close>

definition whitespace :: string where
  "whitespace = [CHR 0x09, CHR 0x0A, CHR 0x0B, CHR 0x0C, CHR 0x0D, CHR 0x20, CHR 0xA0]"

definition lineTerminators :: string where
  "lineTerminators = [CHR 0x0A, CHR 0x0D]"

definition space :: regex where
  "space = One whitespace"

definition digit :: regex where
  "digit = One digits"

definition dot :: regex where
  "dot = NoneOf lineTerminators"

text \<open>
  The state of a match: the text before the current position (reversed), the text from
  the current position on, and the captures made so far (the latest first).
\<close>

type_synonym mstate = "string \<times> string \<times> (nat \<times> string) list"

text \<open>The measure of the matcher's recursion: a repetition counts its mandatory rounds.\<close>

fun weight :: "regex \<Rightarrow> nat" where
  "weight (Seq a b) = Suc (weight a + weight b)"
| "weight (Alt a b) = Suc (weight a + weight b)"
| "weight (Rep lo hi r) = Suc (lo + weight r)"
| "weight (Grp n r) = Suc (weight r)"
| "weight (NotAhead r) = Suc (weight r)"
| "weight _ = 0"

text \<open>
  \<open>matchRe r st k\<close>: match \<open>r\<close> at \<open>st\<close> and hand the state reached to the continuation
  \<open>k\<close>; \<open>None\<close> makes the matcher backtrack to the previous choice. A repetition first
  tries one more round and then to go on; once its mandatory rounds are done, a round
  that matches the empty string is refused (RepeatMatcher, step 2.b of the standard).
\<close>

function (sequential) matchRe :: "regex \<Rightarrow> mstate \<Rightarrow> (mstate \<Rightarrow> mstate option) \<Rightarrow> mstate option" where
  "matchRe Eps st k = k st"
| "matchRe (One cs) (seen, [], gs) k = None"
| "matchRe (One cs) (seen, c # rest, gs) k =
     (if c \<in> set cs then k (c # seen, rest, gs) else None)"
| "matchRe (NoneOf cs) (seen, [], gs) k = None"
| "matchRe (NoneOf cs) (seen, c # rest, gs) k =
     (if c \<notin> set cs then k (c # seen, rest, gs) else None)"
| "matchRe Bol (seen, rest, gs) k = (if seen = [] then k (seen, rest, gs) else None)"
| "matchRe BolM (seen, rest, gs) k =
     (if seen = [] \<or> hd seen \<in> set lineTerminators then k (seen, rest, gs) else None)"
| "matchRe (Seq a b) st k = matchRe a st (\<lambda>st'. matchRe b st' k)"
| "matchRe (Alt a b) st k =
     (case matchRe a st k of Some res \<Rightarrow> Some res | None \<Rightarrow> matchRe b st k)"
| "matchRe (Rep lo hi r) st k =
     (if hi = Some 0 then k st
      else if lo > 0
        then matchRe r st (\<lambda>st'. matchRe (Rep (lo - 1) (map_option (\<lambda>h. h - 1) hi) r) st' k)
      else (case matchRe r st
                   (\<lambda>st'. if length (fst (snd st')) < length (fst (snd st))
                          then matchRe (Rep 0 (map_option (\<lambda>h. h - 1) hi) r) st' k
                          else None) of
              Some res \<Rightarrow> Some res
            | None \<Rightarrow> k st))"
| "matchRe (Grp n r) (seen, rest, gs) k =
     matchRe r (seen, rest, gs)
       (\<lambda>(seen', rest', gs').
           k (seen', rest', (n, rev (take (length seen' - length seen) seen')) # gs'))"
| "matchRe (NotAhead r) st k = (case matchRe r st Some of Some res \<Rightarrow> None | None \<Rightarrow> k st)"
  by pat_completeness auto
termination
  by (relation "measures [\<lambda>(r, st, k). weight r, \<lambda>(r, st, k). length (fst (snd st))]") auto

text \<open>
  A match object: \<^verbatim>\<open>match.index\<close>, \<^verbatim>\<open>match[0]\<close> and the groups \<^verbatim>\<open>match[1]\<close>,
  \<^verbatim>\<open>match[2]\<close>, ... (a group that took no part is absent, which is \<^verbatim>\<open>undefined\<close>).
\<close>

record rmatch =
  matchIndex :: nat
  matchText :: string
  matchGroups :: "(nat \<times> string) list"

definition mkMatch :: "string \<Rightarrow> mstate \<Rightarrow> rmatch" where
  "mkMatch seen st =
     (case st of (seen', rest', gs) \<Rightarrow>
        \<lparr>matchIndex = length seen,
         matchText = rev (take (length seen' - length seen) seen'),
         matchGroups = gs\<rparr>)"

text \<open>The search for the first position, from the current one on, where the expression matches.\<close>

fun search :: "regex \<Rightarrow> string \<Rightarrow> string \<Rightarrow> rmatch option" where
  "search r seen [] =
     (case matchRe r (seen, [], []) Some of
        Some st \<Rightarrow> Some (mkMatch seen st)
      | None \<Rightarrow> None)"
| "search r seen (c # rest) =
     (case matchRe r (seen, c # rest, []) Some of
        Some st \<Rightarrow> Some (mkMatch seen st)
      | None \<Rightarrow> search r (c # seen) rest)"

text \<open>
  \<^verbatim>\<open>regex.exec(s)\<close> of a global expression whose \<^verbatim>\<open>lastIndex\<close> is \<open>lastIndex\<close>, and
  \<^verbatim>\<open>s.match(regex)\<close> of an expression without the \<^verbatim>\<open>g\<close> flag, which searches from 0.
\<close>

definition execAt :: "regex \<Rightarrow> string \<Rightarrow> nat \<Rightarrow> rmatch option" where
  "execAt r s lastIndex =
     (if lastIndex > length s then None
      else search r (rev (take lastIndex s)) (drop lastIndex s))"

definition matchFirst :: "regex \<Rightarrow> string \<Rightarrow> rmatch option" where
  "matchFirst r s = execAt r s 0"

text \<open>\<^verbatim>\<open>match[n]\<close>, and its truthiness: defined and not the empty string.\<close>

definition matchGroup :: "rmatch \<Rightarrow> nat \<Rightarrow> string option" where
  "matchGroup mt n = map_of (matchGroups mt) n"

definition truthy :: "string option \<Rightarrow> bool" where
  "truthy g = (case g of None \<Rightarrow> False | Some s \<Rightarrow> s \<noteq> [])"

text \<open>\<^verbatim>\<open>lastIndex\<close> after a successful \<^verbatim>\<open>exec\<close>.\<close>

definition matchEnd :: "rmatch \<Rightarrow> nat" where
  "matchEnd mt = matchIndex mt + length (matchText mt)"

subsection \<open>String functions\<close>

definition isSpace :: "char \<Rightarrow> bool" where
  "isSpace c = (c \<in> set whitespace)"

definition trim :: "string \<Rightarrow> string" where
  "trim s = rev (dropWhile isSpace (rev (dropWhile isSpace s)))"

text \<open>\<^verbatim>\<open>s.substring(a, b)\<close>: the arguments are swapped when \<open>a > b\<close>.\<close>

definition substring :: "string \<Rightarrow> nat \<Rightarrow> nat \<Rightarrow> string" where
  "substring s a b = (if a \<le> b then take (b - a) (drop a s) else take (a - b) (drop b s))"

text \<open>\<^verbatim>\<open>s.replace(regex, '')\<close> for an expression without the \<^verbatim>\<open>g\<close> flag.\<close>

definition removeFirst :: "regex \<Rightarrow> string \<Rightarrow> string" where
  "removeFirst r s =
     (case matchFirst r s of
        None \<Rightarrow> s
      | Some mt \<Rightarrow> take (matchIndex mt) s @ drop (matchEnd mt) s)"

text \<open>\<^verbatim>\<open>s.split('\n')\<close>.\<close>

fun splitLines :: "string \<Rightarrow> string list" where
  "splitLines [] = [[]]"
| "splitLines (c # s) =
     (if c = CHR 0x0A then [] # splitLines s
      else (case splitLines s of l # ls \<Rightarrow> (c # l) # ls | [] \<Rightarrow> [[c]]))"

text \<open>
  \<^verbatim>\<open>toUpperCase()\<close> on the letters a to z; the source applies it to text that holds
  no other letter.
\<close>

definition toUpperCase :: "string \<Rightarrow> string" where
  "toUpperCase s =
     map (\<lambda>c. case map_of (zip ''abcdefghijklmnopqrstuvwxyz'' ''ABCDEFGHIJKLMNOPQRSTUVWXYZ'') c of
                Some u \<Rightarrow> u | None \<Rightarrow> c) s"

text \<open>
  \<^verbatim>\<open>parseInt(s)\<close>: leading white space, an optional sign, an optional \<^verbatim>\<open>0x\<close> that
  selects base 16, then the longest run of digits; \<open>None\<close> is \<^verbatim>\<open>NaN\<close>. The value is an
  integer (the rounding of numbers beyond 2^53 is outside the model).
\<close>

definition digitValue :: "char \<Rightarrow> nat option" where
  "digitValue c =
     map_of (zip ''0123456789abcdef'' [0..<16] @ zip ''ABCDEF'' [10..<16]) c"

definition validDigit :: "nat \<Rightarrow> char \<Rightarrow> bool" where
  "validDigit radix c = (case digitValue c of None \<Rightarrow> False | Some v \<Rightarrow> v < radix)"

definition digitsValue :: "nat \<Rightarrow> string \<Rightarrow> nat" where
  "digitsValue radix ds = foldl (\<lambda>acc c. acc * radix + the (digitValue c)) 0 ds"

definition parseInt :: "string \<Rightarrow> int option" where
  "parseInt s =
    (let s1 = dropWhile isSpace s;
         negative = (take 1 s1 = ''-'');
         s2 = (if take 1 s1 = ''-'' \<or> take 1 s1 = ''+'' then drop 1 s1 else s1);
         hex = (take 2 s2 = ''0x'' \<or> take 2 s2 = ''0X'');
         radix = (if hex then 16 else 10);
         s3 = (if hex then drop 2 s2 else s2);
         ds = takeWhile (validDigit radix) s3
     in if ds = [] then None
        else Some (if negative then - int (digitsValue radix ds) else int (digitsValue radix ds)))"


section \<open>The matcher moves forward\<close>

text \<open>
  \<open>consumes r\<close>: by its shape, \<open>r\<close> matches no empty string. \<open>reaches st st'\<close>: the state
  \<open>st'\<close> is \<open>st\<close> moved forward over some text \<open>w\<close>.
\<close>

fun consumes :: "regex \<Rightarrow> bool" where
  "consumes (One cs) = True"
| "consumes (NoneOf cs) = True"
| "consumes (Seq a b) = (consumes a \<or> consumes b)"
| "consumes (Alt a b) = (consumes a \<and> consumes b)"
| "consumes (Rep lo hi r) = (lo > 0 \<and> hi \<noteq> Some 0 \<and> consumes r)"
| "consumes (Grp n r) = consumes r"
| "consumes _ = False"

definition reaches :: "mstate \<Rightarrow> mstate \<Rightarrow> bool" where
  "reaches st st' = (\<exists>w. fst (snd st) = w @ fst (snd st') \<and> fst st' = rev w @ fst st)"

lemma reaches_refl: "reaches st st"
  by (simp add: reaches_def)

lemma reaches_trans: "reaches st st1 \<Longrightarrow> reaches st1 st2 \<Longrightarrow> reaches st st2"
  unfolding reaches_def by (metis append.assoc rev_append)

lemma reaches_length: "reaches st st' \<Longrightarrow> length (fst (snd st')) \<le> length (fst (snd st))"
  unfolding reaches_def by auto

lemma reaches_step: "reaches (seen, c # rest, gs) (c # seen, rest, gs')"
  unfolding reaches_def by (intro exI [of _ "[c]"]) simp

text \<open>What a successful match hands to its continuation.\<close>

definition progress :: "regex \<Rightarrow> mstate \<Rightarrow> mstate \<Rightarrow> bool" where
  "progress r st st' =
     (reaches st st' \<and> (consumes r \<longrightarrow> length (fst (snd st')) < length (fst (snd st))))"

lemma matchRe_progress:
  "matchRe r st k = Some res \<Longrightarrow> \<exists>st'. k st' = Some res \<and> progress r st st'"
proof (induction r st k arbitrary: res rule: matchRe.induct)
  case (1 st k)
  then show ?case by (intro exI [of _ st]) (simp add: progress_def reaches_refl)
next
  case (2 cs seen gs k)
  then show ?case by simp
next
  case (3 cs seen c rest gs k)
  then have "k (c # seen, rest, gs) = Some res"
    by (simp split: if_splits)
  then show ?case
    by (intro exI [of _ "(c # seen, rest, gs)"]) (simp add: progress_def reaches_step)
next
  case (4 cs seen gs k)
  then show ?case by simp
next
  case (5 cs seen c rest gs k)
  then have "k (c # seen, rest, gs) = Some res"
    by (simp split: if_splits)
  then show ?case
    by (intro exI [of _ "(c # seen, rest, gs)"]) (simp add: progress_def reaches_step)
next
  case (6 seen rest gs k)
  then have "k (seen, rest, gs) = Some res"
    by (simp split: if_splits)
  then show ?case
    by (intro exI [of _ "(seen, rest, gs)"]) (simp add: progress_def reaches_refl)
next
  case (7 seen rest gs k)
  then have "k (seen, rest, gs) = Some res"
    by (simp split: if_splits)
  then show ?case
    by (intro exI [of _ "(seen, rest, gs)"]) (simp add: progress_def reaches_refl)
next
  case (8 a b st k)
  from "8.prems" have "matchRe a st (\<lambda>st'. matchRe b st' k) = Some res" by simp
  then obtain st1 where st1: "matchRe b st1 k = Some res" "progress a st st1"
    using "8.IH"(2) by blast
  then obtain st2 where st2: "k st2 = Some res" "progress b st1 st2"
    using "8.IH"(1) by blast
  have "progress (Seq a b) st st2"
    using st1(2) st2(2) reaches_length [of st st1] reaches_length [of st1 st2]
    by (auto simp: progress_def intro: reaches_trans)
  then show ?case using st2(1) by blast
next
  case (9 a b st k)
  show ?case
  proof (cases "matchRe a st k")
    case None
    then have "matchRe b st k = Some res" using "9.prems" by simp
    then obtain st' where st': "k st' = Some res" "progress b st st'"
      using "9.IH"(2) [OF None] by blast
    then have "progress (Alt a b) st st'" by (simp add: progress_def)
    then show ?thesis using st'(1) by blast
  next
    case (Some x)
    then have "matchRe a st k = Some res" using "9.prems" by simp
    then obtain st' where st': "k st' = Some res" "progress a st st'"
      using "9.IH"(1) by blast
    then have "progress (Alt a b) st st'" by (simp add: progress_def)
    then show ?thesis using st'(1) by blast
  qed
next
  case (10 lo hi r st k)
  let ?hi' = "map_option (\<lambda>h. h - 1) hi"
  show ?case
  proof (cases "hi = Some 0")
    case True
    then show ?thesis using "10.prems" by (intro exI [of _ st]) (simp add: progress_def reaches_refl)
  next
    case hi: False
    show ?thesis
    proof (cases "0 < lo")
      case lo: True
      then have "matchRe r st (\<lambda>st'. matchRe (Rep (lo - 1) ?hi' r) st' k) = Some res"
        using "10.prems" hi by simp
      then obtain st1 where st1: "matchRe (Rep (lo - 1) ?hi' r) st1 k = Some res" "progress r st st1"
        using "10.IH"(2) [OF hi lo] by blast
      then obtain st2 where st2: "k st2 = Some res" "progress (Rep (lo - 1) ?hi' r) st1 st2"
        using "10.IH"(1) [OF hi lo] by blast
      have "progress (Rep lo hi r) st st2"
        using st1(2) st2(2) reaches_length [of st st1] reaches_length [of st1 st2]
        by (auto simp: progress_def intro: reaches_trans)
      then show ?thesis using st2(1) by blast
    next
      case lo: False
      let ?k' = "\<lambda>st'. if length (fst (snd st')) < length (fst (snd st))
                          then matchRe (Rep 0 ?hi' r) st' k else None"
      show ?thesis
      proof (cases "matchRe r st ?k'")
        case None
        then have "k st = Some res" using "10.prems" hi lo by simp
        then show ?thesis using lo by (intro exI [of _ st]) (simp add: progress_def reaches_refl)
      next
        case (Some x)
        then have "matchRe r st ?k' = Some res" using "10.prems" hi lo by simp
        then obtain st1 where st1: "?k' st1 = Some res" "progress r st st1"
          using "10.IH"(4) [OF hi lo] by blast
        then have less: "length (fst (snd st1)) < length (fst (snd st))"
          and "matchRe (Rep 0 ?hi' r) st1 k = Some res"
          by (auto split: if_splits)
        then obtain st2 where st2: "k st2 = Some res" "progress (Rep 0 ?hi' r) st1 st2"
          using "10.IH"(3) [OF hi lo] by blast
        have "progress (Rep lo hi r) st st2"
          using st1(2) st2(2) lo by (auto simp: progress_def intro: reaches_trans)
        then show ?thesis using st2(1) by blast
      qed
    qed
  qed
next
  case (11 n r seen rest gs k)
  let ?k' = "\<lambda>(seen', rest', gs').
           k (seen', rest', (n, rev (take (length seen' - length seen) seen')) # gs')"
  from "11.prems" have "matchRe r (seen, rest, gs) ?k' = Some res" by simp
  then obtain st1 where st1: "?k' st1 = Some res" "progress r (seen, rest, gs) st1"
    using "11.IH" by blast
  obtain b1 r1 g1 where s: "st1 = (b1, r1, g1)" by (cases st1)
  let ?st2 = "(b1, r1, (n, rev (take (length b1 - length seen) b1)) # g1)"
  have "k ?st2 = Some res" using st1(1) s by simp
  moreover have "progress (Grp n r) (seen, rest, gs) ?st2"
    using st1(2) s by (simp add: progress_def reaches_def)
  ultimately show ?case by blast
next
  case (12 r st k)
  then have "k st = Some res" by (auto split: option.splits)
  then show ?case by (intro exI [of _ st]) (simp add: progress_def reaches_refl)
qed

lemma mkMatch_reaches:
  assumes "reaches (seen, rest, gs) st"
  shows "matchIndex (mkMatch seen st) = length seen"
    and "rest = matchText (mkMatch seen st) @ fst (snd st)"
proof -
  obtain b' r' g' where st: "st = (b', r', g')" by (cases st)
  obtain w where w: "rest = w @ r'" "b' = rev w @ seen"
    using assms unfolding reaches_def st by auto
  show "matchIndex (mkMatch seen st) = length seen"
    by (simp add: mkMatch_def st)
  show "rest = matchText (mkMatch seen st) @ fst (snd st)"
    by (simp add: mkMatch_def st w)
qed

lemma matchRe_Some_match:
  assumes "matchRe r (seen, rest, []) Some = Some st"
  shows "matchIndex (mkMatch seen st) = length seen"
    and "rest = matchText (mkMatch seen st) @ fst (snd st)"
    and "consumes r \<Longrightarrow> matchText (mkMatch seen st) \<noteq> []"
proof -
  obtain st' where "Some st' = Some st" and p: "progress r (seen, rest, []) st'"
    using matchRe_progress [OF assms] by blast
  then have p: "progress r (seen, rest, []) st" by simp
  then have r: "reaches (seen, rest, []) st" by (simp add: progress_def)
  show "matchIndex (mkMatch seen st) = length seen"
    using r by (rule mkMatch_reaches)
  show split: "rest = matchText (mkMatch seen st) @ fst (snd st)"
    using r by (rule mkMatch_reaches)
  show "matchText (mkMatch seen st) \<noteq> []" if "consumes r"
  proof
    assume "matchText (mkMatch seen st) = []"
    then have "rest = fst (snd st)" using split by simp
    then show False using p that by (simp add: progress_def)
  qed
qed

lemma search_result:
  "search r seen rest = Some mt \<Longrightarrow>
   \<exists>w rest'. rest = w @ matchText mt @ rest' \<and> matchIndex mt = length seen + length w \<and>
     (consumes r \<longrightarrow> matchText mt \<noteq> [])"
proof (induction rest arbitrary: seen)
  case Nil
  then obtain st where st: "matchRe r (seen, [], []) Some = Some st" "mt = mkMatch seen st"
    by (auto split: option.splits)
  show ?case
    using matchRe_Some_match [OF st(1)] st(2)
    by (intro exI [of _ "[]"] exI [of _ "fst (snd st)"]) auto
next
  case (Cons c rest)
  show ?case
  proof (cases "matchRe r (seen, c # rest, []) Some")
    case (Some st)
    then have mt: "mt = mkMatch seen st" using Cons.prems by simp
    show ?thesis
      using matchRe_Some_match [OF Some] mt
      by (intro exI [of _ "[]"] exI [of _ "fst (snd st)"]) auto
  next
    case None
    then have "search r (c # seen) rest = Some mt" using Cons.prems by simp
    then obtain w rest' where w: "rest = w @ matchText mt @ rest'"
      "matchIndex mt = length (c # seen) + length w" "consumes r \<longrightarrow> matchText mt \<noteq> []"
      using Cons.IH by blast
    show ?thesis
      using w by (intro exI [of _ "c # w"] exI [of _ rest']) simp
  qed
qed

lemma execAt_result:
  assumes "execAt r s lastIndex = Some mt"
  shows "lastIndex \<le> matchIndex mt" and "matchEnd mt \<le> length s"
    and "consumes r \<Longrightarrow> matchIndex mt < matchEnd mt"
    and "matchText mt = substring s (matchIndex mt) (matchEnd mt)"
proof -
  have le: "lastIndex \<le> length s"
    and se: "search r (rev (take lastIndex s)) (drop lastIndex s) = Some mt"
    using assms by (auto simp: execAt_def split: if_splits)
  obtain w rest' where w: "drop lastIndex s = w @ matchText mt @ rest'"
    "matchIndex mt = length (rev (take lastIndex s)) + length w"
    "consumes r \<longrightarrow> matchText mt \<noteq> []"
    using search_result [OF se] by blast
  have idx: "matchIndex mt = lastIndex + length w"
    using w(2) le by simp
  show "lastIndex \<le> matchIndex mt"
    using idx by simp
  have "length (drop lastIndex s) = length w + length (matchText mt) + length rest'"
    using w(1) by (metis length_append add.assoc)
  then show "matchEnd mt \<le> length s"
    using idx le by (simp add: matchEnd_def)
  show "matchIndex mt < matchEnd mt" if "consumes r"
    using w(3) that by (simp add: matchEnd_def)
  have "drop (matchIndex mt) s = drop (length w) (drop lastIndex s)"
    by (simp add: idx add.commute)
  also have "\<dots> = matchText mt @ rest'"
    by (simp add: w(1))
  finally show "matchText mt = substring s (matchIndex mt) (matchEnd mt)"
    by (simp add: substring_def matchEnd_def)
qed


section \<open>Parser (parser.ts)\<close>

subsection \<open>The regular expressions of the source\<close>

definition letterAE :: regex where
  "letterAE = One ''ABCDEabcde''"

text \<open>\<^verbatim>\<open>/^\s*(?:(\d{1,3})[.)]|(###.*))/gm\<close>\<close>

definition blockStartPattern :: regex where
  "blockStartPattern =
     seqs [BolM, many space,
           Alt (seqs [Grp 1 (Rep 1 (Some 3) digit), One ''.)''])
               (Grp 2 (seqs [One ''#'', One ''#'', One ''#'', many dot]))]"

text \<open>\<^verbatim>\<open>/^\s*(\d{1,3})[.)]\s*(\([^)]*\))?\s*/\<close>\<close>

definition questionPattern :: regex where
  "questionPattern =
     seqs [Bol, many space, Grp 1 (Rep 1 (Some 3) digit), One ''.)'', many space,
           optional (Grp 2 (seqs [One ''('', many (NoneOf '')''), One '')''])), many space]"

text \<open>\<^verbatim>\<open>/\s*[*]?\s*[Aa][.)]\s+/\<close>\<close>

definition answerStartPattern :: regex where
  "answerStartPattern =
     seqs [many space, optional (One ''*''), many space, One ''Aa'', One ''.)'', many1 space]"

text \<open>\<^verbatim>\<open>/([*])?\s*([A-Ea-e])[.)]\s+((?:(?!\s[*]?\s*[A-Ea-e][.)]).)+)/g\<close>\<close>

definition answerPattern :: regex where
  "answerPattern =
     seqs [optional (Grp 1 (One ''*'')), many space, Grp 2 letterAE, One ''.)'', many1 space,
           Grp 3 (many1 (seqs [NotAhead (seqs [space, optional (One ''*''), many space,
                                               letterAE, One ''.)'']),
                               dot]))]"

text \<open>\<^verbatim>\<open>/^###\s*/\<close>\<close>

definition sectionPrefixPattern :: regex where
  "sectionPrefixPattern = seqs [Bol, One ''#'', One ''#'', One ''#'', many space]"

text \<open>\<^verbatim>\<open>/(\d+)[.):\s]+([A-Ea-e,\s]+)/\<close>\<close>

definition answerKeyPattern :: regex where
  "answerKeyPattern =
     seqs [Grp 1 (many1 digit), many1 (One (''.):'' @ whitespace)),
           Grp 2 (many1 (One (''ABCDEabcde,'' @ whitespace)))]"

lemma consumes_patterns:
  "consumes blockStartPattern" "consumes answerPattern"
  by (simp_all add: blockStartPattern_def answerPattern_def seqs_def many_def many1_def
      optional_def space_def digit_def dot_def letterAE_def)

lemma execAt_advance:
  assumes "consumes r" and "execAt r s lastIndex = Some mt"
  shows "Suc (length s) - matchEnd mt < Suc (length s) - lastIndex"
  using execAt_result(1,2) [OF assms(2)] execAt_result(3) [OF assms(2,1)] by linarith

subsection \<open>parseMcq\<close>

text \<open>
  An entry of the array \<^verbatim>\<open>blocks\<close>: \<^verbatim>\<open>{ text, type, match }\<close>. The only exception the
  parser throws is \<^verbatim>\<open>new Error('Invalid question format')\<close>. The parser's state is the
  array \<^verbatim>\<open>rows\<close> with the counter \<^verbatim>\<open>rowId\<close>.
\<close>

datatype blockType = QuestionBlock | SectionBlock

record block =
  blockText :: string
  blockType :: blockType
  blockMatch :: rmatch

datatype parseError = InvalidQuestionFormat

type_synonym parseState = "ParsedRow list \<times> int"

text \<open>A run of \<^verbatim>\<open>rows.push(createRow(++rowId, type, label, text))\<close>.\<close>

definition pushRows :: "(ParsedRowType \<times> string \<times> string) list \<Rightarrow> parseState \<Rightarrow> parseState" where
  "pushRows new st =
     foldl (\<lambda>(rows, rowId) (t, l, txt). (rows @ [createRow (rowId + 1) t l txt None], rowId + 1)) st new"

text \<open>
  The loop \<^verbatim>\<open>while ((answerMatch = answerPattern.exec(answersText)) !== null)\<close>;
  \<open>lastIndex\<close> is the \<^verbatim>\<open>lastIndex\<close> of the expression. A new row gets the id
  \<^verbatim>\<open>startId + rows.length + 1\<close>.
\<close>

function answerLoop :: "string \<Rightarrow> int \<Rightarrow> nat \<Rightarrow> ParsedRow list \<Rightarrow> ParsedRow list" where
  "answerLoop answersText startId lastIndex rows =
    (case execAt answerPattern answersText lastIndex of
       None \<Rightarrow> rows
     | Some answerMatch \<Rightarrow>
         if \<not> truthy (matchGroup answerMatch 2) \<or> \<not> truthy (matchGroup answerMatch 3)
         then answerLoop answersText startId (matchEnd answerMatch) rows
         else
           let isCorrect = truthy (matchGroup answerMatch 1);
               answerLetter = toUpperCase (the (matchGroup answerMatch 2));
               answerText = trim (the (matchGroup answerMatch 3));
               row = createRow (startId + int (length rows) + 1) Answer answerLetter answerText None
           in answerLoop answersText startId (matchEnd answerMatch)
                (rows @ [if isCorrect then row\<lparr>isKey := Some True\<rparr> else row]))"
  by pat_completeness auto
termination
  by (relation "measure (\<lambda>(answersText, startId, lastIndex, rows). Suc (length answersText) - lastIndex)")
    (auto intro!: execAt_advance [OF consumes_patterns(2)])

declare answerLoop.simps [simp del]

text \<open>
  \<^verbatim>\<open>parseQuestionBlockFlexible\<close>: \<open>Inl\<close> is the thrown error. \<^verbatim>\<open>block.substring(n)\<close>
  is \<open>drop n\<close>. \<open>splitAnswers\<close> is the conditional on \<^verbatim>\<open>answerStartMatch\<close> that sets
  \<^verbatim>\<open>questionText\<close> and \<^verbatim>\<open>answersText\<close>.
\<close>

definition splitAnswers :: "string \<Rightarrow> string \<times> string" where
  "splitAnswers remainingText =
    (case matchFirst answerStartPattern remainingText of
       Some answerStartMatch \<Rightarrow>
         (trim (substring remainingText 0 (matchIndex answerStartMatch)),
          drop (matchIndex answerStartMatch) remainingText)
     | None \<Rightarrow> (trim remainingText, []))"

definition parseQuestionBlockFlexible :: "string \<Rightarrow> int \<Rightarrow> parseError + ParsedRow list" where
  "parseQuestionBlockFlexible blk startId =
    (case matchFirst questionPattern blk of
       None \<Rightarrow> Inl InvalidQuestionFormat
     | Some questionMatch \<Rightarrow>
         if \<not> truthy (matchGroup questionMatch 1) \<or> matchText questionMatch = []
         then Inl InvalidQuestionFormat
         else
           let questionNumber = the (matchGroup questionMatch 1);
               remainingText = drop (length (matchText questionMatch)) blk;
               (questionText, answersText) = splitAnswers remainingText;
               rows = [createRow (startId + 0 + 1) Question questionNumber questionText
                         (parseInt questionNumber)]
           in Inr (if answersText \<noteq> [] then answerLoop answersText startId 0 rows else rows))"

text \<open>"Text before first block = implicit first section header".\<close>

definition implicitHeader :: "string \<Rightarrow> parseState \<Rightarrow> parseState" where
  "implicitHeader headerText st =
     (if headerText \<noteq> [] then pushRows [(Section, ''S'', headerText), (Empty, [], [])] st else st)"

lemma blockLoop_advance:
  assumes "execAt blockStartPattern s lastIndex = Some mt"
    and "execAt blockStartPattern s (matchEnd mt) = Some nextMt"
  shows "length s - matchIndex nextMt < length s - lastIndex"
  using execAt_result(1) [OF assms(1)] execAt_result(3) [OF assms(1) consumes_patterns(1)]
    execAt_result(1,2) [OF assms(2)] execAt_result(3) [OF assms(2) consumes_patterns(1)]
  by linarith

text \<open>
  The loop \<^verbatim>\<open>while ((match = blockStartPattern.exec(normalized)) !== null)\<close> of
  \<^verbatim>\<open>parseMcq\<close>. \<open>lastIndex\<close> is the \<^verbatim>\<open>lastIndex\<close> of the expression: the end of the
  match after the first \<^verbatim>\<open>exec\<close>, and the start of the next match when the body has
  reset it. The loop ends when the first \<^verbatim>\<open>exec\<close> finds nothing, or at \<^verbatim>\<open>break\<close>.
\<close>

function blockLoop :: "string \<Rightarrow> nat \<Rightarrow> block list \<Rightarrow> parseState \<Rightarrow> block list \<times> parseState" where
  "blockLoop normalized lastIndex blocks st =
    (case execAt blockStartPattern normalized lastIndex of
       None \<Rightarrow> (blocks, st)
     | Some match \<Rightarrow>
         let st1 = (if length blocks = 0 \<and> matchIndex match > 0
                    then implicitHeader (trim (substring normalized 0 (matchIndex match))) st
                    else st);
             nextMatch = execAt blockStartPattern normalized (matchEnd match);
             endIndex = (case nextMatch of Some n \<Rightarrow> matchIndex n | None \<Rightarrow> length normalized);
             blocks1 = blocks @
               [\<lparr>blockText = substring normalized (matchIndex match) endIndex,
                 blockType = (if truthy (matchGroup match 2) then SectionBlock else QuestionBlock),
                 blockMatch = match\<rparr>]
         in (case nextMatch of
               None \<Rightarrow> (blocks1, st1)
             | Some n \<Rightarrow> blockLoop normalized (matchIndex n) blocks1 st1))"
  by pat_completeness auto
termination
  by (relation "measure (\<lambda>(normalized, lastIndex, blocks, st). length normalized - lastIndex)")
    (auto intro!: blockLoop_advance)

declare blockLoop.simps [simp del]

text \<open>
  \<^verbatim>\<open>questionRows.forEach(row => { rowId++; row.id = rowId; rows.push(row) })\<close>.
\<close>

definition renumberInto :: "parseState \<Rightarrow> ParsedRow list \<Rightarrow> parseState" where
  "renumberInto st questionRows =
     foldl (\<lambda>(rows, rowId) row. (rows @ [row\<lparr>row_id := rowId + 1\<rparr>], rowId + 1)) st questionRows"

text \<open>
  The body of \<^verbatim>\<open>blocks.forEach\<close>. \<open>sectionTitle\<close> is
  \<^verbatim>\<open>block.match[2]?.replace(/^###\s*/, '').trim() || ''\<close>. The \<^verbatim>\<open>try\<close> block throws before
  it has pushed any row, so the \<^verbatim>\<open>catch\<close> branch starts from the state the block was
  entered with.
\<close>

definition sectionTitle :: "block \<Rightarrow> string" where
  "sectionTitle blk =
    (case matchGroup (blockMatch blk) 2 of
       Some g \<Rightarrow> trim (removeFirst sectionPrefixPattern g)
     | None \<Rightarrow> [])"

definition processBlock :: "parseState \<Rightarrow> block \<Rightarrow> parseState" where
  "processBlock st blk =
    (if blockType blk = SectionBlock
     then pushRows [(Section, ''S'', sectionTitle blk), (Empty, [], [])] st
     else
       (case parseQuestionBlockFlexible (blockText blk) (snd st) of
          Inr questionRows \<Rightarrow> pushRows [(Empty, [], [])] (renumberInto st questionRows)
        | Inl e \<Rightarrow> pushRows [(Error, ''error'', blockText blk), (Empty, [], [])] st))"

text \<open>
  The replacement of \<^verbatim>\<open>[\u000a\u000b\u000c\u000d\u0085\u2028\u2029]\<close> by a line feed
  (the last two are no 8-bit characters).
\<close>

definition normalizeLineBreaks :: "string \<Rightarrow> string" where
  "normalizeLineBreaks s =
     map (\<lambda>c. if c \<in> set [CHR 0x0A, CHR 0x0B, CHR 0x0C, CHR 0x0D, CHR 0x85] then CHR 0x0A else c) s"

text \<open>\<^verbatim>\<open>parseMcq\<close>; the parameter \<^verbatim>\<open>_formatSettings\<close> is not used by the source.\<close>

definition parseMcq :: "string \<Rightarrow> ParsedRow list" where
  "parseMcq input =
    (let normalized = normalizeLineBreaks (trim input)
     in if normalized = [] then []
        else (case blockLoop normalized 0 [] ([], 0) of
                (blocks, st) \<Rightarrow>
                  if length blocks = 0
                  then (if trim normalized \<noteq> []
                        then fst (pushRows [(Section, ''S'', normalized), (Empty, [], [])] st)
                        else fst st)
                  else fst (foldl processBlock st blocks)))"

subsection \<open>parseAnswerKey and applyAnswerKey\<close>

text \<open>
  \<^verbatim>\<open>Map<number, string[]>\<close>: the entries in insertion order. A key is a number as
  \<^verbatim>\<open>parseInt\<close> returns it. \<^verbatim>\<open>set\<close> on a key that is present replaces the value in
  place.
\<close>

type_synonym answerKeyMap = "(int option \<times> string list) list"

fun mapSet :: "'k \<Rightarrow> 'v \<Rightarrow> ('k \<times> 'v) list \<Rightarrow> ('k \<times> 'v) list" where
  "mapSet key v [] = [(key, v)]"
| "mapSet key v ((key', v') # entries) =
     (if key' = key then (key, v) # entries else (key', v') # mapSet key v entries)"

definition mapGet :: "('k \<times> 'v) list \<Rightarrow> 'k \<Rightarrow> 'v option" where
  "mapGet entries key = map_of entries key"

text \<open>The body of the loop over the lines of \<^verbatim>\<open>parseAnswerKey\<close>.\<close>

definition keyLineStep :: "answerKeyMap \<Rightarrow> string \<Rightarrow> answerKeyMap" where
  "keyLineStep answerKey line =
    (case matchFirst answerKeyPattern line of
       None \<Rightarrow> answerKey
     | Some match \<Rightarrow>
         if \<not> truthy (matchGroup match 1) \<or> \<not> truthy (matchGroup match 2) then answerKey
         else
           let questionNum = parseInt (the (matchGroup match 1));
               answersStr = filter (\<lambda>c. c \<in> set ''ABCDE'') (toUpperCase (the (matchGroup match 2)))
           in if length answersStr = 0 then answerKey
              else mapSet questionNum
                     (filter (\<lambda>c. c \<in> set letters) (map (\<lambda>c. [c]) answersStr)) answerKey)"

text \<open>\<^verbatim>\<open>input.split('\n').filter(line => line.trim())\<close>\<close>

definition answerKeyLines :: "string \<Rightarrow> string list" where
  "answerKeyLines input = filter (\<lambda>line. trim line \<noteq> []) (splitLines input)"

definition parseAnswerKey :: "string \<Rightarrow> answerKeyMap" where
  "parseAnswerKey input =
    (if trim input = [] then [] else foldl keyLineStep [] (answerKeyLines input))"

text \<open>
  \<^verbatim>\<open>applyAnswerKey\<close> assigns to \<^verbatim>\<open>row.isKey\<close> of the rows it is given, so the rows
  are objects in a store: a heap maps a reference to the row it holds, and an array of
  rows is a list of references. The function returns the heap after the call together
  with the array it returns, which is the array it was given.
  \<open>currentQuestionNum\<close> is \<^verbatim>\<open>null\<close> (\<open>None\<close>) or a number.
\<close>

type_synonym heap = "nat \<Rightarrow> ParsedRow"

definition resetKey :: "heap \<Rightarrow> nat \<Rightarrow> heap" where
  "resetKey h r = (if row_type (h r) = Answer then h(r := (h r)\<lparr>isKey := Some False\<rparr>) else h)"

definition applyStep :: "answerKeyMap \<Rightarrow> heap \<times> int option option \<Rightarrow> nat \<Rightarrow> heap \<times> int option option" where
  "applyStep answerKey st r =
    (case st of (h, currentQuestionNum) \<Rightarrow>
       if row_type (h r) = Question then (h, Some (parseInt (label (h r))))
       else if row_type (h r) = Answer \<and> currentQuestionNum \<noteq> None then
         (let correctAnswers =
                (case mapGet answerKey (the currentQuestionNum) of Some ls \<Rightarrow> ls | None \<Rightarrow> [])
          in if label (h r) \<in> set correctAnswers
             then (h(r := (h r)\<lparr>isKey := Some True\<rparr>), currentQuestionNum)
             else (h, currentQuestionNum))
       else (h, currentQuestionNum))"

definition applyAnswerKey :: "heap \<Rightarrow> nat list \<Rightarrow> answerKeyMap \<Rightarrow> heap \<times> nat list" where
  "applyAnswerKey h rows answerKey =
    (let h1 = foldl resetKey h rows;
         (h2, currentQuestionNum) = foldl (applyStep answerKey) (h1, None) rows
     in (h2, rows))"


section \<open>Validation is a fixed point after one pass\<close>

lemma resetType_idem: "resetType (resetType t) = resetType t"
  by (cases t) simp_all

lemma resetType_not_Error: "resetType t \<noteq> Error"
  by (cases t) simp_all

lemma validateRow_label: "label (validateRow rows i) = label (rows ! i)"
  by (simp add: validateRow_def Let_def)

lemma validatedRows_length: "length (validatedRows (validateParsedMcq rows)) = length rows"
  by (simp add: validateParsedMcq_def Let_def)

lemma validatedRows_nth:
  "i < length rows \<Longrightarrow> validatedRows (validateParsedMcq rows) ! i = validateRow rows i"
  by (auto simp: validateParsedMcq_def Let_def)

lemma hasError_cong:
  assumes "length rows' = length rows"
    and "\<forall>j < length rows. label (rows' ! j) = label (rows ! j)"
    and "i < length rows"
  shows "hasError rows' i = hasError rows i"
proof -
  have p: "previousLabel rows' i = previousLabel rows i"
    using assms by (simp add: previousLabel_def)
  have n: "nextLabel rows' i = nextLabel rows i"
    using assms by (simp add: nextLabel_def)
  have nn: "nextNextLabel rows' i = nextNextLabel rows i"
    using assms by (simp add: nextNextLabel_def)
  have l: "label (rows' ! i) = label (rows ! i)"
    using assms by simp
  show ?thesis
    unfolding hasError_def p n nn l ..
qed

lemma validateRow_again:
  assumes "i < length rows"
  shows "validateRow (validatedRows (validateParsedMcq rows)) i = validateRow rows i"
proof -
  let ?v = "validatedRows (validateParsedMcq rows)"
  have len: "length ?v = length rows"
    by (rule validatedRows_length)
  have lab: "\<forall>j < length rows. label (?v ! j) = label (rows ! j)"
    by (simp add: validatedRows_nth validateRow_label)
  have he: "hasError ?v i = hasError rows i"
    using hasError_cong [OF len lab assms] .
  have vi: "?v ! i = validateRow rows i"
    using assms by (rule validatedRows_nth)
  show ?thesis
    unfolding validateRow_def [of ?v i] he vi
    by (simp add: validateRow_def Let_def resetType_idem resetType_not_Error)
qed

lemma validate_fixed_point:
  "validatedRows (validateParsedMcq (validatedRows (validateParsedMcq rows))) =
   validatedRows (validateParsedMcq rows)"
proof (rule nth_equalityI)
  show "length (validatedRows (validateParsedMcq (validatedRows (validateParsedMcq rows)))) =
        length (validatedRows (validateParsedMcq rows))"
    by (simp add: validatedRows_length)
next
  fix i
  assume "i < length (validatedRows (validateParsedMcq (validatedRows (validateParsedMcq rows))))"
  then have i: "i < length rows"
    by (simp add: validatedRows_length)
  then have i': "i < length (validatedRows (validateParsedMcq rows))"
    by (simp add: validatedRows_length)
  show "validatedRows (validateParsedMcq (validatedRows (validateParsedMcq rows))) ! i =
        validatedRows (validateParsedMcq rows) ! i"
    by (simp only: validatedRows_nth [OF i'] validateRow_again [OF i] validatedRows_nth [OF i])
qed

text \<open>
  C6. Validating the validated rows again changes no row type: the types (kinds) of
  \<open>validate (validate rows).rows\<close> are, row for row, those of \<open>validate rows\<close>.
\<close>

theorem validate_idempotent_types:
  "map row_type (validatedRows (validateParsedMcq (validatedRows (validateParsedMcq rows)))) =
   map row_type (validatedRows (validateParsedMcq rows))"
  by (simp only: validate_fixed_point)


section \<open>What generateAnswerKey emits\<close>








section \<open>shuffleArray: a permutation that keeps the locked indexes\<close>

lemma strict_sorted_bound:
  "sorted_wrt (<) (l # ls) \<Longrightarrow> \<forall>x\<in>set (l # ls). x < n \<Longrightarrow> l + length ls < (n::nat)"
proof (induction ls arbitrary: l)
  case Nil
  then show ?case by simp
next
  case (Cons m ms)
  have "m + length ms < n"
    using Cons.prems by (intro Cons.IH) auto
  moreover have "l < m"
    using Cons.prems by simp
  ultimately show ?case by simp
qed

lemma strict_sorted_nth_bound:
  assumes "sorted_wrt (<) ls" "\<forall>x\<in>set ls. x < (n::nat)" "j < length ls"
  shows "ls ! j + (length ls - j) \<le> n"
proof -
  have d: "drop j ls = ls ! j # drop (Suc j) ls"
    using assms(3) by (simp add: Cons_nth_drop_Suc)
  have "sorted_wrt (<) (drop j ls)"
    using assms(1) by (rule sorted_wrt_drop)
  moreover have "\<forall>x\<in>set (drop j ls). x < n"
    using assms(2) by (meson in_set_dropD)
  ultimately have "ls ! j + length (drop (Suc j) ls) < n"
    unfolding d by (rule strict_sorted_bound)
  then show ?thesis using assms(3) by simp
qed

lemma spliceRemove_length:
  "i < length xs \<Longrightarrow> length (spliceRemove i xs) = length xs - 1"
  by (simp add: spliceRemove_def)

lemma spliceRemove_mset:
  "i < length xs \<Longrightarrow> add_mset (xs ! i) (mset (spliceRemove i xs)) = mset xs"
proof -
  assume "i < length xs"
  then have "xs = take i xs @ xs ! i # drop (Suc i) xs"
    by (rule id_take_nth_drop)
  then have "mset xs = mset (take i xs @ xs ! i # drop (Suc i) xs)"
    by simp
  then show ?thesis
    by (simp add: spliceRemove_def)
qed

lemma spliceRemove_take:
  "l < i \<Longrightarrow> take (Suc l) (spliceRemove i xs) = take (Suc l) xs"
  by (simp add: spliceRemove_def min_def)


lemma removeLocked_take:
  "\<forall>i\<in>set ls. l < i \<Longrightarrow> take (Suc l) (removeLocked ls xs) = take (Suc l) xs"
  by (induction ls) (simp_all add: removeLocked_def spliceRemove_take)


lemma removeLocked_length_mset:
  "sorted_wrt (<) ls \<Longrightarrow> \<forall>i\<in>set ls. i < length xs \<Longrightarrow>
   length (removeLocked ls xs) = length xs - length ls \<and>
   mset (removeLocked ls xs) + mset (map (\<lambda>i. xs ! i) ls) = mset xs"
proof (induction ls)
  case Nil
  show ?case by (simp add: removeLocked_def)
next
  case (Cons l ls)
  let ?zs = "removeLocked ls xs"
  have step: "removeLocked (l # ls) xs = spliceRemove l ?zs"
    by (simp add: removeLocked_def)
  have IH: "length ?zs = length xs - length ls"
    "mset ?zs + mset (map (\<lambda>i. xs ! i) ls) = mset xs"
    using Cons by simp_all
  have bound: "l + length ls < length xs"
    using Cons.prems by (intro strict_sorted_bound) auto
  then have l: "l < length ?zs"
    using IH(1) by simp
  have "take (Suc l) ?zs = take (Suc l) xs"
    using Cons.prems(1) by (intro removeLocked_take) simp
  then have "take (Suc l) ?zs ! l = take (Suc l) xs ! l"
    by simp
  then have nth: "?zs ! l = xs ! l"
    by simp
  have a: "add_mset (xs ! l) (mset (spliceRemove l ?zs)) = mset ?zs"
    using spliceRemove_mset [OF l] nth by simp
  have "mset (spliceRemove l ?zs) + mset (map (\<lambda>i. xs ! i) (l # ls)) =
        add_mset (xs ! l) (mset (spliceRemove l ?zs)) + mset (map (\<lambda>i. xs ! i) ls)"
    by simp
  also have "\<dots> = mset ?zs + mset (map (\<lambda>i. xs ! i) ls)"
    by (simp only: a)
  also have "\<dots> = mset xs"
    by (rule IH(2))
  finally have "mset (spliceRemove l ?zs) + mset (map (\<lambda>i. xs ! i) (l # ls)) = mset xs" .
  moreover have "length (spliceRemove l ?zs) = length xs - length (l # ls)"
    using spliceRemove_length [OF l] IH(1) by simp
  ultimately show ?case
    unfolding step by simp
qed

lemma fisherYates_length: "length (fst (fisherYates rnd k i xs)) = length xs"
  by (induction i arbitrary: k xs) (simp_all add: Let_def)

lemma fisherYates_mset: "mset (fst (fisherYates rnd k i xs)) = mset xs"
proof (induction i arbitrary: k xs)
  case 0
  show ?case by simp
next
  case (Suc i)
  show ?case
    by (simp add: Let_def Suc.IH mset_swap)
qed

lemma restoreLocked_Cons:
  "restoreLocked ((l, e) # pairs) ys = restoreLocked pairs (spliceInsert l e ys)"
  by (simp add: restoreLocked_def)

lemma spliceInsert_length: "length (spliceInsert l e ys) = Suc (length ys)"
  by (simp add: spliceInsert_def)

lemma spliceInsert_mset: "mset (spliceInsert l e ys) = add_mset e (mset ys)"
proof -
  have "mset (take l ys @ drop l ys) = mset ys" by simp
  then show ?thesis
    unfolding spliceInsert_def by (simp del: append_take_drop_id)
qed

lemma spliceInsert_nth_low:
  "i < l \<Longrightarrow> i < length ys \<Longrightarrow> spliceInsert l e ys ! i = ys ! i"
  by (simp add: spliceInsert_def nth_append)

lemma spliceInsert_nth_at:
  "l \<le> length ys \<Longrightarrow> spliceInsert l e ys ! l = e"
  by (simp add: spliceInsert_def nth_append)

lemma restoreLocked_length:
  "length (restoreLocked pairs ys) = length ys + length pairs"
  by (induction pairs arbitrary: ys) (auto simp: restoreLocked_def spliceInsert_length)

lemma restoreLocked_mset:
  "mset (restoreLocked pairs ys) = mset ys + mset (map snd pairs)"
  by (induction pairs arbitrary: ys) (auto simp: restoreLocked_def spliceInsert_mset)

lemma restoreLocked_nth_low:
  "\<forall>l\<in>set (map fst pairs). i < l \<Longrightarrow> i < length ys \<Longrightarrow> restoreLocked pairs ys ! i = ys ! i"
proof (induction pairs arbitrary: ys)
  case Nil
  show ?case by (simp add: restoreLocked_def)
next
  case (Cons p pairs)
  obtain l e where p: "p = (l, e)" by (cases p)
  have "restoreLocked pairs (spliceInsert l e ys) ! i = spliceInsert l e ys ! i"
    using Cons.prems by (intro Cons.IH) (simp_all add: spliceInsert_length)
  also have "\<dots> = ys ! i"
    using Cons.prems p by (intro spliceInsert_nth_low) simp_all
  finally show ?case
    unfolding p restoreLocked_Cons .
qed

lemma restoreLocked_nth:
  "sorted_wrt (<) (map fst pairs) \<Longrightarrow>
   \<forall>j<length pairs. fst (pairs ! j) \<le> length ys + j \<Longrightarrow>
   j < length pairs \<Longrightarrow>
   restoreLocked pairs ys ! fst (pairs ! j) = snd (pairs ! j)"
proof (induction pairs arbitrary: ys j)
  case Nil
  then show ?case by simp
next
  case (Cons p pairs)
  obtain l e where p: "p = (l, e)" by (cases p)
  have l: "l \<le> length ys"
    using Cons.prems(2) p by fastforce
  have low: "\<forall>x\<in>set (map fst pairs). l < x"
    using Cons.prems(1) p by simp
  show ?case
  proof (cases j)
    case 0
    have "restoreLocked pairs (spliceInsert l e ys) ! l = spliceInsert l e ys ! l"
      using low l by (intro restoreLocked_nth_low) (simp_all add: spliceInsert_length)
    also have "\<dots> = e"
      using l by (rule spliceInsert_nth_at)
    finally show ?thesis
      unfolding p restoreLocked_Cons using 0 by simp
  next
    case (Suc j')
    have "restoreLocked pairs (spliceInsert l e ys) ! fst (pairs ! j') = snd (pairs ! j')"
    proof (rule Cons.IH)
      show "sorted_wrt (<) (map fst pairs)"
        using Cons.prems(1) by simp
      show "\<forall>j<length pairs. fst (pairs ! j) \<le> length (spliceInsert l e ys) + j"
      proof (intro allI impI)
        fix i assume "i < length pairs"
        then have "fst ((p # pairs) ! Suc i) \<le> length ys + Suc i"
          using Cons.prems(2) by (metis Suc_less_eq length_Cons)
        then show "fst (pairs ! i) \<le> length (spliceInsert l e ys) + i"
          by (simp add: spliceInsert_length)
      qed
      show "j' < length pairs"
        using Cons.prems(3) Suc by simp
    qed
    then show ?thesis
      unfolding p restoreLocked_Cons using Suc by simp
  qed
qed

lemma shuffleArray_fst:
  "fst (shuffleArray rnd k xs idxs) =
   restoreLocked (zip (sort idxs) (extractLocked xs (sort idxs)))
     (fst (fisherYates rnd k (length (removeLocked (sort idxs) xs) - 1) (removeLocked (sort idxs) xs)))"
  by (simp add: shuffleArray_def Let_def case_prod_beta)

lemma extractLocked_in_range:
  "\<forall>i\<in>set ls. i < length xs \<Longrightarrow> extractLocked xs ls = map (\<lambda>i. xs ! i) ls"
  by (simp add: extractLocked_def)

lemma shuffleArray_props:
  assumes "distinct idxs" and "\<forall>i\<in>set idxs. i < length xs"
  shows shuffleArray_length: "length (fst (shuffleArray rnd k xs idxs)) = length xs"
    and shuffleArray_mset: "mset (fst (shuffleArray rnd k xs idxs)) = mset xs"
    and shuffleArray_locked: "\<forall>i\<in>set idxs. fst (shuffleArray rnd k xs idxs) ! i = xs ! i"
proof -
  let ?L = "sort idxs"
  let ?es = "map (\<lambda>i. xs ! i) ?L"
  let ?a1 = "removeLocked ?L xs"
  let ?a2 = "fst (fisherYates rnd k (length ?a1 - 1) ?a1)"
  have sorted: "sorted_wrt (<) ?L"
    using assms(1) by (simp add: strict_sorted_iff)
  have range: "\<forall>i\<in>set ?L. i < length xs"
    using assms(2) by simp
  have res: "fst (shuffleArray rnd k xs idxs) = restoreLocked (zip ?L ?es) ?a2"
    by (simp only: shuffleArray_fst extractLocked_in_range [OF range])
  have a1: "length ?a1 = length xs - length ?L" "mset ?a1 + mset ?es = mset xs"
    using removeLocked_length_mset [OF sorted range] by simp_all
  have a2: "length ?a2 = length xs - length ?L" "mset ?a2 = mset ?a1"
    by (simp_all add: fisherYates_length fisherYates_mset a1(1))
  have le: "length ?L \<le> length xs"
  proof (cases ?L)
    case Nil
    then show ?thesis by simp
  next
    case (Cons l ls)
    then have "l + length ls < length xs"
      using sorted range by (intro strict_sorted_bound) simp_all
    then show ?thesis using Cons by simp
  qed
  show "length (fst (shuffleArray rnd k xs idxs)) = length xs"
    unfolding res using le a2(1) by (simp add: restoreLocked_length)
  have "mset (restoreLocked (zip ?L ?es) ?a2) = mset ?a2 + mset ?es"
    by (simp add: restoreLocked_mset)
  then show "mset (fst (shuffleArray rnd k xs idxs)) = mset xs"
    unfolding res by (simp only: a2(2) a1(2))
  show "\<forall>i\<in>set idxs. fst (shuffleArray rnd k xs idxs) ! i = xs ! i"
  proof
    fix i assume "i \<in> set idxs"
    then have "i \<in> set ?L" by simp
    then obtain j where j: "j < length ?L" "?L ! j = i"
      by (meson in_set_conv_nth)
    let ?pairs = "zip ?L ?es"
    have len: "length ?pairs = length ?L" by simp
    have fsts: "map fst ?pairs = ?L" by (simp add: map_fst_zip)
    have "restoreLocked ?pairs ?a2 ! fst (?pairs ! j) = snd (?pairs ! j)"
    proof (rule restoreLocked_nth)
      show "sorted_wrt (<) (map fst ?pairs)"
        using sorted by (simp only: fsts)
      show "\<forall>j<length ?pairs. fst (?pairs ! j) \<le> length ?a2 + j"
      proof (intro allI impI)
        fix j' assume "j' < length ?pairs"
        then have j': "j' < length ?L" by simp
        have "?L ! j' + (length ?L - j') \<le> length xs"
          using sorted range j' by (rule strict_sorted_nth_bound)
        then show "fst (?pairs ! j') \<le> length ?a2 + j'"
          using j' le a2(1) by simp
      qed
      show "j < length ?pairs"
        using j(1) by simp
    qed
    then show "fst (shuffleArray rnd k xs idxs) ! i = xs ! i"
      unfolding res using j by simp
  qed
qed



section \<open>Segmentation loses no row of a section list\<close>

lemma pushRow_concat: "blocks \<noteq> [] \<Longrightarrow> concat (pushRow blocks row) = concat blocks @ [row]"
proof -
  assume "blocks \<noteq> []"
  then have "blocks = butlast blocks @ [last blocks]" by simp
  then have "concat blocks = concat (butlast blocks) @ last blocks"
    by (metis concat.simps(1,2) concat_append append_Nil2)
  then show ?thesis by (simp add: pushRow_def)
qed

lemma sectionStep_concat: "concat (sectionStep secs row) = concat secs @ [row]"
  by (simp add: sectionStep_def pushRow_concat)

lemma foldl_sectionStep_concat: "concat (foldl sectionStep secs rows) = concat secs @ rows"
  by (induction rows arbitrary: secs) (simp_all add: sectionStep_concat)

lemma splitIntoSections_concat: "concat (splitIntoSections rows) = rows"
  by (simp add: splitIntoSections_def foldl_sectionStep_concat)

lemma mset_concat_cong: "mset xss = mset yss \<Longrightarrow> mset (concat xss) = mset (concat yss)"
  by (metis mset_concat sum_mset_sum_list mset_map)

lemma lockedSectionIndexes_ok:
  "distinct (lockedSectionIndexes secs)" "\<forall>i\<in>set (lockedSectionIndexes secs). i < length secs"
  by (simp_all add: lockedSectionIndexes_def)

text \<open>
  C10. For every row sequence, well-formed or not, \<open>shuffleSections\<close> returns a
  permutation of its input: the output has the same rows with the same multiplicities.
  It is the concatenation of the sections of the input, each an unbroken run of rows in
  its original order, taken in a permuted order.
\<close>

theorem shuffleSections_permutation:
  "mset (shuffleSections rnd rows) = mset rows \<and>
   shuffleSections rnd rows = concat (shuffledSections rnd rows) \<and>
   mset (shuffledSections rnd rows) = mset (splitIntoSections rows) \<and>
   concat (splitIntoSections rows) = rows"
proof -
  have m: "mset (shuffledSections rnd rows) = mset (splitIntoSections rows)"
    unfolding shuffledSections_def
    by (rule shuffleArray_mset) (rule lockedSectionIndexes_ok)+
  have "mset (concat (shuffledSections rnd rows)) = mset (concat (splitIntoSections rows))"
    using m by (rule mset_concat_cong)
  then show ?thesis
    using m by (simp add: shuffleSections_def splitIntoSections_concat)
qed


section \<open>Locks\<close>

text \<open>
  Three sections, the second of them locked. With the draw \<open>0\<close> the first and the third
  section change places; they differ in length, so the locked section moves.
\<close>

definition threeSections :: "ParsedRow list" where
  "threeSections =
    [createRow 1 Section ''S'' ''Part 1'' None, createRow 2 Empty [] [] None,
     createRow 3 Question ''1'' ''Q1?'' (Some 1), createRow 4 Answer ''A'' ''a1'' None,
     (createRow 5 Answer ''B'' ''a2'' None)\<lparr>locked := True\<rparr>,
     createRow 6 Answer ''C'' ''a3'' None, createRow 7 Empty [] [] None,
     (createRow 8 Question ''2'' ''Q2?'' (Some 2))\<lparr>locked := True\<rparr>,
     createRow 9 Answer ''A'' ''a1'' None, createRow 10 Answer ''B'' ''a2'' None,
     createRow 11 Empty [] [] None,
     (createRow 12 Section ''S'' ''Part 2'' None)\<lparr>locked := True\<rparr>,
     createRow 13 Empty [] [] None,
     createRow 14 Question ''3'' ''Q3?'' (Some 3), createRow 15 Answer ''A'' ''a1'' None,
     createRow 16 Answer ''B'' ''a2'' None, createRow 17 Empty [] [] None,
     createRow 18 Section ''S'' ''Part 3'' None, createRow 19 Empty [] [] None]"

text \<open>
  C1, as the claim states it, fails: row 11 of \<open>threeSections\<close> (the header of "Part 2")
  is locked, and after \<open>shuffleSections\<close> it stands at index 2.
\<close>

theorem shuffle_locked_rows_counterexample:
  "\<not> (\<forall>i<length threeSections. locked (threeSections ! i) \<longrightarrow>
        shuffleSections (\<lambda>k. 0) threeSections ! i = threeSections ! i)"
proof
  assume "\<forall>i<length threeSections. locked (threeSections ! i) \<longrightarrow>
        shuffleSections (\<lambda>k. 0) threeSections ! i = threeSections ! i"
  moreover have "11 < length threeSections" "locked (threeSections ! 11)"
    by (simp_all add: threeSections_def createRow_def)
  ultimately have "shuffleSections (\<lambda>k. 0) threeSections ! 11 = threeSections ! 11"
    by blast
  then show False
    by code_simp
qed

lemma forEachRng_all2:
  "(\<And>k x. x \<in> set xs \<Longrightarrow> P x (fst (f k x))) \<Longrightarrow> list_all2 P xs (fst (forEachRng f k xs))"
  by (induction xs arbitrary: k) (simp_all add: case_prod_beta Let_def)

lemma lockedBlockIndexes_ok:
  "distinct (lockedBlockIndexes sec)" "\<forall>i\<in>set (lockedBlockIndexes sec). i < length sec"
  by (simp_all add: lockedBlockIndexes_def)

lemma lockedAnswerIndexes_ok:
  assumes "2 \<le> length b"
  shows "distinct (lockedAnswerIndexes b)" "\<forall>i\<in>set (lockedAnswerIndexes b). i < length b"
  using assms by (auto simp: lockedAnswerIndexes_def)

text \<open>
  What each shuffle keeps, at its own granularity. \<open>sectionLockKept\<close>: the list of
  sections keeps its length, and a section whose first row is locked keeps its index in
  that list. \<open>blockLockKept\<close>: the list of blocks of one section keeps its length, and
  the header block and every block whose first row is locked keep their index in it.
  \<open>answerLockKept\<close>: a block of at least two rows keeps its length, and its first row,
  its last row and every locked row keep their index in the block.
\<close>

definition sectionLockKept :: "ParsedRow list list \<Rightarrow> ParsedRow list list \<Rightarrow> bool" where
  "sectionLockKept secs secs' =
     (length secs' = length secs \<and>
      (\<forall>i<length secs. firstHas locked (secs ! i) \<longrightarrow> secs' ! i = secs ! i))"

definition blockLockKept :: "ParsedRow list list \<Rightarrow> ParsedRow list list \<Rightarrow> bool" where
  "blockLockKept sec sec' =
     (length sec' = length sec \<and>
      (\<forall>i<length sec. (i = 0 \<and> firstHas isSection (sec ! i)) \<or> firstHas locked (sec ! i) \<longrightarrow>
         sec' ! i = sec ! i))"

definition answerLockKept :: "ParsedRow list \<Rightarrow> ParsedRow list \<Rightarrow> bool" where
  "answerLockKept b b' =
     (2 \<le> length b \<longrightarrow>
      length b' = length b \<and>
      (\<forall>i<length b. i = 0 \<or> i = length b - 1 \<or> locked (b ! i) \<longrightarrow> b' ! i = b ! i))"

lemma shuffledSections_kept:
  "sectionLockKept (splitIntoSections rows) (shuffledSections rnd rows)"
proof -
  let ?secs = "splitIntoSections rows"
  have "length (fst (shuffleArray rnd 0 ?secs (lockedSectionIndexes ?secs))) = length ?secs"
    by (rule shuffleArray_length) (rule lockedSectionIndexes_ok)+
  moreover have "\<forall>i\<in>set (lockedSectionIndexes ?secs).
      fst (shuffleArray rnd 0 ?secs (lockedSectionIndexes ?secs)) ! i = ?secs ! i"
    by (rule shuffleArray_locked) (rule lockedSectionIndexes_ok)+
  ultimately show ?thesis
    by (simp add: sectionLockKept_def shuffledSections_def lockedSectionIndexes_def)
qed

lemma shuffleBlocksOfSection_kept:
  "blockLockKept sec (fst (shuffleBlocksOfSection rnd k sec))"
proof -
  have "length (fst (shuffleArray rnd k sec (lockedBlockIndexes sec))) = length sec"
    by (rule shuffleArray_length) (rule lockedBlockIndexes_ok)+
  moreover have "\<forall>i\<in>set (lockedBlockIndexes sec).
      fst (shuffleArray rnd k sec (lockedBlockIndexes sec)) ! i = sec ! i"
    by (rule shuffleArray_locked) (rule lockedBlockIndexes_ok)+
  ultimately show ?thesis
    by (simp add: blockLockKept_def shuffleBlocksOfSection_def lockedBlockIndexes_def)
qed

lemma shuffleAnswersOfBlock_kept:
  "answerLockKept b (fst (shuffleAnswersOfBlock rnd k b))"
proof (cases "firstHas isSection b")
  case True
  then show ?thesis by (simp add: answerLockKept_def shuffleAnswersOfBlock_def)
next
  case False
  show ?thesis
    unfolding answerLockKept_def
  proof
    assume len: "2 \<le> length b"
    have "length (fst (shuffleArray rnd k b (lockedAnswerIndexes b))) = length b"
      by (rule shuffleArray_length) (rule lockedAnswerIndexes_ok [OF len])+
    moreover have "\<forall>i\<in>set (lockedAnswerIndexes b). fst (shuffleArray rnd k b (lockedAnswerIndexes b)) ! i = b ! i"
      by (rule shuffleArray_locked) (rule lockedAnswerIndexes_ok [OF len])+
    moreover have "\<forall>i<length b. i = 0 \<or> i = length b - 1 \<or> locked (b ! i) \<longrightarrow>
        i \<in> set (lockedAnswerIndexes b)"
      by (auto simp: lockedAnswerIndexes_def)
    ultimately show "length (fst (shuffleAnswersOfBlock rnd k b)) = length b \<and>
      (\<forall>i<length b. i = 0 \<or> i = length b - 1 \<or> locked (b ! i) \<longrightarrow>
         fst (shuffleAnswersOfBlock rnd k b) ! i = b ! i)"
      using False unfolding shuffleAnswersOfBlock_def by (simp del: One_nat_def)
  qed
qed

text \<open>
  C1, amended. Every shuffle keeps the locked elements of the arrays it shuffles at their
  index in that array: \<open>shuffleSections\<close> a section whose first row is locked, at its
  index among the sections; \<open>shuffleQuestions\<close> the header block and each block whose
  first row is locked, at its index among the blocks of its section; \<open>shuffleAnswers\<close>
  (before relettering) the first row, the last row and each locked row of a block of at
  least two rows, at its index in the block. The index of a row in the whole sequence is
  not part of the statement.
\<close>

theorem shuffle_locks_kept:
  "sectionLockKept (splitIntoSections rows) (shuffledSections rnd rows) \<and>
   list_all2 blockLockKept (splitIntoSectionsAndQuestions rows) (shuffledQuestionBlocks rnd rows) \<and>
   list_all2 (list_all2 answerLockKept) (splitIntoSectionsAndQuestions rows) (shuffledAnswerBlocks rnd rows)"
proof (intro conjI)
  show "sectionLockKept (splitIntoSections rows) (shuffledSections rnd rows)"
    by (rule shuffledSections_kept)
  show "list_all2 blockLockKept (splitIntoSectionsAndQuestions rows) (shuffledQuestionBlocks rnd rows)"
    unfolding shuffledQuestionBlocks_def
    by (rule forEachRng_all2) (rule shuffleBlocksOfSection_kept)
  show "list_all2 (list_all2 answerLockKept) (splitIntoSectionsAndQuestions rows) (shuffledAnswerBlocks rnd rows)"
    unfolding shuffledAnswerBlocks_def
    by (rule forEachRng_all2, rule forEachRng_all2) (rule shuffleAnswersOfBlock_kept)
qed

theorem shuffle_locks_kept_witness:
  "shuffledSections (\<lambda>k. 0) threeSections ! 1 = splitIntoSections threeSections ! 1 \<and>
   shuffledQuestionBlocks (\<lambda>k. 0) threeSections ! 0 ! 2 =
     splitIntoSectionsAndQuestions threeSections ! 0 ! 2 \<and>
   shuffledAnswerBlocks (\<lambda>k. 0) threeSections ! 0 ! 1 ! 2 =
     splitIntoSectionsAndQuestions threeSections ! 0 ! 1 ! 2"
proof -
  let ?rnd = "\<lambda>k::nat. 0::nat"
  let ?secs = "splitIntoSections threeSections"
  let ?blocks = "splitIntoSectionsAndQuestions threeSections"
  note kept = shuffle_locks_kept [of threeSections ?rnd]
  have s: "1 < length ?secs" "firstHas locked (?secs ! 1)"
    by code_simp+
  have "shuffledSections ?rnd threeSections ! 1 = ?secs ! 1"
    using kept s unfolding sectionLockKept_def by blast
  moreover
  have b: "0 < length ?blocks" "2 < length (?blocks ! 0)" "firstHas locked (?blocks ! 0 ! 2)"
    by code_simp+
  have "blockLockKept (?blocks ! 0) (shuffledQuestionBlocks ?rnd threeSections ! 0)"
    using kept b(1) by (simp add: list_all2_nthD)
  then have "shuffledQuestionBlocks ?rnd threeSections ! 0 ! 2 = ?blocks ! 0 ! 2"
    using b(2,3) unfolding blockLockKept_def by blast
  moreover
  have a: "1 < length (?blocks ! 0)" "2 \<le> length (?blocks ! 0 ! 1)"
    "2 < length (?blocks ! 0 ! 1)" "locked (?blocks ! 0 ! 1 ! 2)"
    by code_simp+
  have "list_all2 answerLockKept (?blocks ! 0) (shuffledAnswerBlocks ?rnd threeSections ! 0)"
    using kept b(1) by (simp add: list_all2_nthD)
  then have "answerLockKept (?blocks ! 0 ! 1) (shuffledAnswerBlocks ?rnd threeSections ! 0 ! 1)"
    using a(1) by (simp add: list_all2_nthD)
  then have "shuffledAnswerBlocks ?rnd threeSections ! 0 ! 1 ! 2 = ?blocks ! 0 ! 1 ! 2"
    using a(2,3,4) unfolding answerLockKept_def by blast
  ultimately show ?thesis by simp
qed


section \<open>Relettering\<close>









lemma pushRow_set: "blocks \<noteq> [] \<Longrightarrow> set (concat (pushRow blocks row)) = set (concat blocks) \<union> {row}"
  by (simp add: pushRow_concat)














section \<open>The parser on the scenario input\<close>

definition scenarioInput :: string where
  "scenarioInput = ''1. Q1? A. a1 B. a2'' @ [CHR 0x0A] @ ''2. Q2? A. a1 B. a2''"

text \<open>
  C4, as the claim states it, fails: the rows parsed from the scenario input do not
  start with a \<open>Section\<close> row and an \<open>Empty\<close> row (the first marker stands at index 0, so
  there is no text before it to make an implicit section of).
\<close>

theorem parseMcq_scenario_counterexample:
  "map row_type (take 2 (parseMcq scenarioInput)) \<noteq> [Section, Empty]"
  by code_simp

text \<open>
  C4, amended. \<open>parseMcq\<close> applied to the scenario input produces exactly eight rows,
  with the ids 1 to 8: the \<open>Question\<close> row labelled 1, its \<open>Answer\<close> rows labelled A and B,
  one \<open>Empty\<close> row, the \<open>Question\<close> row labelled 2, its \<open>Answer\<close> rows labelled A and B,
  and one \<open>Empty\<close> row. No \<open>Section\<close> row is emitted.
\<close>

theorem parseMcq_scenario:
  "parseMcq scenarioInput =
    [createRow 1 Question ''1'' ''Q1?'' (Some 1),
     createRow 2 Answer ''A'' ''a1'' None,
     createRow 3 Answer ''B'' ''a2'' None,
     createRow 4 Empty [] [] None,
     createRow 5 Question ''2'' ''Q2?'' (Some 2),
     createRow 6 Answer ''A'' ''a1'' None,
     createRow 7 Answer ''B'' ''a2'' None,
     createRow 8 Empty [] [] None]"
  by code_simp


section \<open>The answer key\<close>

lemma keyLineStep_skip:
  "matchFirst answerKeyPattern line = None \<Longrightarrow> keyLineStep answerKey line = answerKey"
  by (simp add: keyLineStep_def)

text \<open>A line has the number-then-letters shape when the expression of the source matches in it.\<close>

definition hasKeyShape :: "string \<Rightarrow> bool" where
  "hasKeyShape line = (matchFirst answerKeyPattern line \<noteq> None)"

lemma foldl_keyLineStep_filter:
  "foldl keyLineStep answerKey (filter hasKeyShape ls) = foldl keyLineStep answerKey ls"
  by (induction ls arbitrary: answerKey) (simp_all add: keyLineStep_skip hasKeyShape_def)

definition scenarioKey :: string where
  "scenarioKey = ''1. B'' @ [CHR 0x0A] @ ''2) A, C'' @ [CHR 0x0A] @ ''3 D''"

text \<open>
  C8. \<open>parseAnswerKey\<close> applied to the scenario text yields the mapping of 1 to B, of 2
  to A and C, and of 3 to D, and nothing else. For every input, the lines without the
  number-then-letters shape contribute nothing: the result is what the loop makes of the
  lines that have the shape, the others left out. No line makes the function fail (it has
  no error result).
\<close>

theorem parseAnswerKey_scenario_and_skips:
  "parseAnswerKey scenarioKey = [(Some 1, [''B'']), (Some 2, [''A'', ''C'']), (Some 3, [''D''])] \<and>
   parseAnswerKey input =
     (if trim input = [] then []
      else foldl keyLineStep [] (filter hasKeyShape (answerKeyLines input)))"
proof
  show "parseAnswerKey scenarioKey = [(Some 1, [''B'']), (Some 2, [''A'', ''C'']), (Some 3, [''D''])]"
    by code_simp
  show "parseAnswerKey input =
     (if trim input = [] then []
      else foldl keyLineStep [] (filter hasKeyShape (answerKeyLines input)))"
    by (simp add: parseAnswerKey_def foldl_keyLineStep_filter)
qed

text \<open>An answer key with a heading and a remark between its entries.\<close>

definition remarkKey :: string where
  "remarkKey = ''Answers:'' @ [CHR 0x0A] @ ''1. B'' @ [CHR 0x0A] @ ''(see page 3)'' @ [CHR 0x0A] @ ''2 C''"

theorem parseAnswerKey_scenario_and_skips_witness:
  "answerKeyLines remarkKey = [''Answers:'', ''1. B'', ''(see page 3)'', ''2 C''] \<and>
   parseAnswerKey remarkKey = foldl keyLineStep [] [''1. B'', ''2 C''] \<and>
   parseAnswerKey remarkKey = [(Some 1, [''B'']), (Some 2, [''C''])]"
proof -
  have l: "answerKeyLines remarkKey = [''Answers:'', ''1. B'', ''(see page 3)'', ''2 C'']"
    by code_simp
  have t: "trim remarkKey \<noteq> []"
    by code_simp
  have f: "filter hasKeyShape [''Answers:'', ''1. B'', ''(see page 3)'', ''2 C''] = [''1. B'', ''2 C'']"
    by code_simp
  have "parseAnswerKey remarkKey =
        (if trim remarkKey = [] then []
         else foldl keyLineStep [] (filter hasKeyShape (answerKeyLines remarkKey)))"
    using parseAnswerKey_scenario_and_skips [of remarkKey] by (rule conjunct2)
  then have "parseAnswerKey remarkKey = foldl keyLineStep [] [''1. B'', ''2 C'']"
    by (simp only: t if_False l f)
  moreover have "foldl keyLineStep [] [''1. B'', ''2 C''] = [(Some 1, [''B'']), (Some 2, [''C''])]"
    by code_simp
  ultimately show ?thesis
    using l by simp
qed

text \<open>
  Rows as the parser makes them for a question whose first option is starred, held in a
  store: reference 1 is the keyed option A.
\<close>

definition keyedHeap :: heap where
  "keyedHeap = (\<lambda>r. createRow 0 Empty [] [] None)
     (0 := createRow 1 Question ''1'' ''Q1?'' (Some 1),
      1 := (createRow 2 Answer ''A'' ''a1'' None)\<lparr>isKey := Some True\<rparr>,
      2 := createRow 3 Answer ''B'' ''a2'' None,
      3 := createRow 4 Empty [] [] None)"

text \<open>
  C2 does not hold of the code. \<open>applyAnswerKey\<close> writes \<open>isKey\<close> of the rows it is given
  and returns the array it was given: with the key map that maps question 1 to B, the
  input row A, keyed before the call, is not keyed after it, and the input row B is.
\<close>

theorem applyAnswerKey_mutates_input:
  "isKey (keyedHeap 1) = Some True \<and>
   isKey (fst (applyAnswerKey keyedHeap [0, 1, 2, 3] [(Some 1, [''B''])]) 1) = Some False \<and>
   isKey (keyedHeap 2) = Some False \<and>
   isKey (fst (applyAnswerKey keyedHeap [0, 1, 2, 3] [(Some 1, [''B''])]) 2) = Some True \<and>
   snd (applyAnswerKey keyedHeap [0, 1, 2, 3] [(Some 1, [''B''])]) = [0, 1, 2, 3]"
  by code_simp


section \<open>The block loop of parseMcq, block by block\<close>


































text \<open>A question block with the given text (the loop does not read the match of a question block).\<close>

definition questionBlock :: "string \<Rightarrow> block" where
  "questionBlock blk =
     \<lparr>blockText = blk, blockType = QuestionBlock,
      blockMatch = \<lparr>matchIndex = 0, matchText = [], matchGroups = []\<rparr>\<rparr>"






end
